theory Spec2Isabelle
  imports Complex_Main
begin

section \<open>Data model\<close>

text \<open>
  The mutation operators of \<^verbatim>\<open>qoop/evolution/mutate.py\<close> work on a circuit object:
  \<^verbatim>\<open>qc.data\<close> is the ordered sequence of placements, each with the attributes
  \<^verbatim>\<open>operation\<close>, \<^verbatim>\<open>qubits\<close> and \<^verbatim>\<open>clbits\<close> (also readable as a triple, so that
  \<^verbatim>\<open>qc.data[index][1]\<close> is the target-qubit sequence), and \<^verbatim>\<open>qc.num_qubits\<close> is the
  width. An operation exposes \<^verbatim>\<open>name\<close> and \<^verbatim>\<open>num_qubits\<close>. Qubits and classical bits are
  identified by their index in the circuit.
\<close>

datatype py_error = IndexError | CircuitError

text \<open>
  What a pool constructor is called with: nothing, one symbolic parameter
  \<^verbatim>\<open>Parameter(f'{index}')\<close>, or a vector \<^verbatim>\<open>ParameterVector(f'{index}', n)\<close>. The
  parameter's name is the decimal rendering of the position index; the model keeps the
  index itself.
\<close>

datatype param_arg = NoParams | Parameter int | ParameterVector int int

record gate =
  name :: string
  num_qubits :: nat
  params :: param_arg

record instruction =
  operation :: gate
  qubits :: "nat list"
  clbits :: "nat list"

record circuit =
  qc_num_qubits :: nat
  data :: "instruction list"

text \<open>
  A pool entry is the dictionary \<^verbatim>\<open>{'operation': constructor, 'num_params': n}\<close>. The
  constructor is a parameter of the model: a function from the argument it is called with
  to the operation it builds.
\<close>

record descriptor =
  d_operation :: "param_arg \<Rightarrow> gate"
  num_params :: int

subsection \<open>Python sequence indexing\<close>

text \<open>
  \<^verbatim>\<open>xs[i]\<close> accepts \<^verbatim>\<open>-len(xs) <= i < len(xs)\<close>, a negative index counting from the
  end, and raises \<^verbatim>\<open>IndexError\<close> otherwise.
\<close>

definition position :: "'a list \<Rightarrow> int \<Rightarrow> nat option" where
  "position xs i =
     (if 0 \<le> i \<and> i < int (length xs) then Some (nat i)
      else if i < 0 \<and> - int (length xs) \<le> i then Some (nat (int (length xs) + i))
      else None)"

definition getitem :: "'a list \<Rightarrow> int \<Rightarrow> py_error + 'a" where
  "getitem xs i = (case position xs i of None \<Rightarrow> Inl IndexError | Some k \<Rightarrow> Inr (xs ! k))"

definition setitem :: "'a list \<Rightarrow> int \<Rightarrow> 'a \<Rightarrow> py_error + 'a list" where
  "setitem xs i v = (case position xs i of None \<Rightarrow> Inl IndexError | Some k \<Rightarrow> Inr (xs[k := v]))"

subsection \<open>The randomness source\<close>

text \<open>
  The module-level generator of \<^verbatim>\<open>random\<close> is the only implicit state. It is modelled as
  an infinite tape of raw draws and a read position. \<^verbatim>\<open>random.random()\<close> yields a
  53-bit integer divided by \<open>2^53\<close>, hence a value in \<open>[0, 1)\<close>; \<^verbatim>\<open>random.choice(seq)\<close>
  raises \<^verbatim>\<open>IndexError\<close> on an empty sequence and otherwise returns the element at an
  index below \<^verbatim>\<open>len(seq)\<close>. Each call consumes one cell of the tape.
\<close>

record random_state =
  src :: "nat \<Rightarrow> nat"
  pos :: nat

definition advance :: "nat \<Rightarrow> random_state \<Rightarrow> random_state" where
  "advance k r = r\<lparr>pos := pos r + k\<rparr>"

definition random_random :: "random_state \<Rightarrow> rat \<times> random_state" where
  "random_random r = (of_nat (src r (pos r) mod 2 ^ 53) / 2 ^ 53, advance 1 r)"

definition random_choice :: "'a list \<Rightarrow> random_state \<Rightarrow> py_error + 'a \<times> random_state" where
  "random_choice xs r =
     (if xs = [] then Inl IndexError
      else Inr (xs ! (src r (pos r) mod length xs), advance 1 r))"

text \<open>
  \<open>draw xs r\<close> names the element the next \<^verbatim>\<open>random.choice(xs)\<close> returns on a non-empty
  sequence; \<open>draw xs (advance k r)\<close> is the element returned after \<open>k\<close> more reads.
\<close>

definition draw :: "'a list \<Rightarrow> random_state \<Rightarrow> 'a" where
  "draw xs r = xs ! (src r (pos r) mod length xs)"

section \<open>Site Mutator: \<^verbatim>\<open>specific_mutate\<close>\<close>

text \<open>Lines 18--23: the drawn descriptor is instantiated according to its parameter count.\<close>

definition instantiate :: "descriptor \<Rightarrow> int \<Rightarrow> gate" where
  "instantiate new_gate index =
     (if num_params new_gate = 0 then d_operation new_gate NoParams
      else if num_params new_gate = 1 then d_operation new_gate (Parameter index)
      else d_operation new_gate (ParameterVector index (num_params new_gate)))"

text \<open>
  Lines 16--25: the \<^verbatim>\<open>while (True)\<close> redraw loop. It may run forever, so the result is an
  option: \<open>None\<close> is "does not return", \<open>Some (Inl e)\<close> a raised exception,
  \<open>Some (Inr (gate, r))\<close> the accepted operation and the generator state after the draws.
\<close>

partial_function (option) specific_mutate_loop ::
  "circuit \<Rightarrow> descriptor list \<Rightarrow> int \<Rightarrow> random_state \<Rightarrow> (py_error + gate \<times> random_state) option"
where
  "specific_mutate_loop qc pool index r =
     (case random_choice pool r of
        Inl e \<Rightarrow> Some (Inl e)
      | Inr (new_gate, r') \<Rightarrow>
          (case getitem (data qc) index of
             Inl e \<Rightarrow> Some (Inl e)
           | Inr cur \<Rightarrow>
               if num_qubits (instantiate new_gate index) = num_qubits (operation cur)
               then Some (Inr (instantiate new_gate index, r'))
               else specific_mutate_loop qc pool index r'))"

text \<open>
  Lines 26--31: the overwrite. Only arity 1 and arity 2 have a branch; for any other
  arity the accepted operation is dropped and the circuit is returned as it was.
  \<^verbatim>\<open>target_qubits[0]\<close> raises on an empty target sequence.
\<close>

definition overwrite :: "circuit \<Rightarrow> int \<Rightarrow> gate \<Rightarrow> nat list \<Rightarrow> py_error + circuit" where
  "overwrite qc index g qs =
     (case setitem (data qc) index \<lparr>operation = g, qubits = qs, clbits = []\<rparr> of
        Inl e \<Rightarrow> Inl e
      | Inr d \<Rightarrow> Inr (qc\<lparr>data := d\<rparr>))"

definition rebind :: "circuit \<Rightarrow> int \<Rightarrow> gate \<Rightarrow> nat list \<Rightarrow> py_error + circuit" where
  "rebind qc index g target_qubits =
     (if num_qubits g = 1 then
        (case getitem target_qubits 0 of
           Inl e \<Rightarrow> Inl e
         | Inr q0 \<Rightarrow> overwrite qc index g [q0])
      else if num_qubits g = 2 then
        (if length target_qubits > 1
         then overwrite qc index g [target_qubits ! 0, target_qubits ! 1]
         else (case getitem target_qubits 0 of
                 Inl e \<Rightarrow> Inl e
               | Inr q0 \<Rightarrow> overwrite qc index g [q0]))
      else Inr qc)"

definition specific_mutate ::
  "circuit \<Rightarrow> descriptor list \<Rightarrow> int \<Rightarrow> random_state \<Rightarrow> (py_error + circuit \<times> random_state) option"
where
  "specific_mutate qc pool index r =
     (case specific_mutate_loop qc pool index r of
        None \<Rightarrow> None
      | Some (Inl e) \<Rightarrow> Some (Inl e)
      | Some (Inr (g, r')) \<Rightarrow>
          (case getitem (data qc) index of
             Inl e \<Rightarrow> Some (Inl e)
           | Inr cur \<Rightarrow>
               (case rebind qc index g (qubits cur) of
                  Inl e \<Rightarrow> Some (Inl e)
                | Inr qc' \<Rightarrow> Some (Inr (qc', r')))))"

section \<open>Bitflip Mutator: \<^verbatim>\<open>bitflip_mutate\<close>\<close>

text \<open>
  Lines 62--67. \<^verbatim>\<open>num_gates\<close> is read once and \<^verbatim>\<open>range(0, num_gates)\<close> is the list of
  positions the loop walks. Besides the circuit and the generator state the model
  returns the list of positions at which \<^verbatim>\<open>specific_mutate\<close> has been called, in call
  order: this log is not in the source, it only records the calls the loop makes.
\<close>

fun bitflip_mutate_loop ::
  "descriptor list \<Rightarrow> rat \<Rightarrow> int list \<Rightarrow> circuit \<Rightarrow> random_state \<Rightarrow> int list
     \<Rightarrow> (py_error + circuit \<times> random_state \<times> int list) option"
where
  "bitflip_mutate_loop pool prob_mutate [] qc r visited = Some (Inr (qc, r, visited))"
| "bitflip_mutate_loop pool prob_mutate (index # rest) qc r visited =
     (if fst (random_random r) < prob_mutate then
        (case specific_mutate qc pool index (snd (random_random r)) of
           None \<Rightarrow> None
         | Some (Inl e) \<Rightarrow> Some (Inl e)
         | Some (Inr (qc', r')) \<Rightarrow>
             bitflip_mutate_loop pool prob_mutate rest qc' r' (visited @ [index]))
      else bitflip_mutate_loop pool prob_mutate rest qc (snd (random_random r)) visited)"

definition bitflip_mutate ::
  "descriptor list \<Rightarrow> rat \<Rightarrow> circuit \<Rightarrow> random_state
     \<Rightarrow> (py_error + circuit \<times> random_state \<times> int list) option"
where
  "bitflip_mutate pool prob_mutate qc r =
     (let num_gates = length (data qc)
      in bitflip_mutate_loop pool prob_mutate (map int [0..<num_gates]) qc r [])"

text \<open>
  The pass as the spec words it, for comparison with the loop above: the Site Mutator is
  invoked once at each listed position, in the order listed, each call on the circuit the
  previous call returned and after one read of the randomness source for the coin. A call
  that raises or does not return ends the pass there, with that outcome.
\<close>

fun visit_each_position ::
  "descriptor list \<Rightarrow> int list \<Rightarrow> circuit \<Rightarrow> random_state
     \<Rightarrow> (py_error + circuit \<times> random_state) option"
where
  "visit_each_position pool [] qc r = Some (Inr (qc, r))"
| "visit_each_position pool (index # rest) qc r =
     (case specific_mutate qc pool index (advance 1 r) of
        None \<Rightarrow> None
      | Some (Inl e) \<Rightarrow> Some (Inl e)
      | Some (Inr (qc', r')) \<Rightarrow> visit_each_position pool rest qc' r')"

section \<open>Constrained Site Mutator: \<^verbatim>\<open>specific_mutate_testing\<close>\<close>

definition is_rotational :: "gate \<Rightarrow> bool" where
  "is_rotational g = (name g \<in> set [''rx'', ''ry'', ''rz''])"

text \<open>Line 106: \<^verbatim>\<open>sum(1 for gate in qc.data if gate.operation.name in ["rx", "ry", "rz"])\<close>.\<close>

definition num_rot_gates :: "circuit \<Rightarrow> int" where
  "num_rot_gates qc = (\<Sum>g \<leftarrow> filter (\<lambda>g. is_rotational (operation g)) (data qc). 1)"

text \<open>
  Lines 111--126: the redraw loop with the extra acceptance test. The count of rotation
  gates and the kind of the replaced operation are computed once, before the loop.
\<close>

partial_function (option) specific_mutate_testing_loop ::
  "circuit \<Rightarrow> descriptor list \<Rightarrow> int \<Rightarrow> int \<Rightarrow> int \<Rightarrow> bool \<Rightarrow> random_state
     \<Rightarrow> (py_error + gate \<times> random_state) option"
where
  "specific_mutate_testing_loop qc pool index num_qubits' num_rot current_is_rotational r =
     (case random_choice pool r of
        Inl e \<Rightarrow> Some (Inl e)
      | Inr (new_gate, r') \<Rightarrow>
          (case getitem (data qc) index of
             Inl e \<Rightarrow> Some (Inl e)
           | Inr cur \<Rightarrow>
               if num_qubits (instantiate new_gate index) = num_qubits (operation cur)
                  \<and> (is_rotational (instantiate new_gate index)
                       \<or> (\<not> current_is_rotational \<and> num_rot \<ge> num_qubits'))
               then Some (Inr (instantiate new_gate index, r'))
               else specific_mutate_testing_loop qc pool index num_qubits' num_rot
                      current_is_rotational r'))"

definition specific_mutate_testing ::
  "circuit \<Rightarrow> descriptor list \<Rightarrow> int \<Rightarrow> int \<Rightarrow> random_state
     \<Rightarrow> (py_error + circuit \<times> random_state) option"
where
  "specific_mutate_testing qc pool index num_qubits' r =
     (case getitem (data qc) index of
        Inl e \<Rightarrow> Some (Inl e)
      | Inr cur \<Rightarrow>
          (case specific_mutate_testing_loop qc pool index num_qubits' (num_rot_gates qc)
                  (is_rotational (operation cur)) r of
             None \<Rightarrow> None
           | Some (Inl e) \<Rightarrow> Some (Inl e)
           | Some (Inr (g, r')) \<Rightarrow>
               (case overwrite qc index g (qubits cur) of
                  Inl e \<Rightarrow> Some (Inl e)
                | Inr qc' \<Rightarrow> Some (Inr (qc', r')))))"

text \<open>
  A sequence of constrained mutations: the calls are made one after the other, each on
  the circuit the previous one returned, at the positions and with the pools listed.
\<close>

fun specific_mutate_testing_seq ::
  "int \<Rightarrow> (descriptor list \<times> int) list \<Rightarrow> circuit \<Rightarrow> random_state
     \<Rightarrow> (py_error + circuit \<times> random_state) option"
where
  "specific_mutate_testing_seq num_qubits' [] qc r = Some (Inr (qc, r))"
| "specific_mutate_testing_seq num_qubits' ((pool, index) # calls) qc r =
     (case specific_mutate_testing qc pool index num_qubits' r of
        None \<Rightarrow> None
      | Some (Inl e) \<Rightarrow> Some (Inl e)
      | Some (Inr (qc', r')) \<Rightarrow> specific_mutate_testing_seq num_qubits' calls qc' r')"

section \<open>Depth and the by-depth normalizer\<close>

text \<open>
  Modelled from the spec: \<^verbatim>\<open>qc.depth()\<close> belongs to the circuit library, which is not
  among the sources. The spec calls it the length of the longest dependency chain: every
  placement sits one level above the highest level already reached on any of the bits it
  touches, and the depth is the highest level of all. A placement touching no bit adds
  nothing.
\<close>

definition bits :: "instruction \<Rightarrow> (nat + nat) list" where
  "bits x = map Inl (qubits x) @ map Inr (clbits x)"

fun depth_from :: "(nat + nat \<Rightarrow> nat) \<Rightarrow> nat \<Rightarrow> instruction list \<Rightarrow> nat" where
  "depth_from op_stack m [] = m"
| "depth_from op_stack m (x # xs) =
     (if bits x = [] then depth_from op_stack m xs
      else depth_from
             (\<lambda>b. if b \<in> set (bits x) then Suc (fold max (map op_stack (bits x)) 0)
                  else op_stack b)
             (max m (Suc (fold max (map op_stack (bits x)) 0))) xs)"

definition depth_of :: "instruction list \<Rightarrow> nat" where
  "depth_of xs = depth_from (\<lambda>_. 0) 0 xs"

definition depth :: "circuit \<Rightarrow> nat" where
  "depth qc = depth_of (data qc)"

text \<open>
  \<^verbatim>\<open>normalizer.by_depth\<close>, lines 33--39. The divider \<^verbatim>\<open>divider.by_depth\<close> is imported from
  a module that is not among the sources; it is a parameter here,
  \<^verbatim>\<open>divider_by_depth(depth)(qc)\<close> returning the pair of sub-circuits or raising.
\<close>

definition by_depth ::
  "(int \<Rightarrow> circuit \<Rightarrow> py_error + circuit \<times> circuit) \<Rightarrow> int \<Rightarrow> circuit \<Rightarrow> py_error + circuit"
where
  "by_depth divider_by_depth depth' qc =
     (if int (depth qc) \<le> depth' then Inr qc
      else (case divider_by_depth depth' qc of
              Inl e \<Rightarrow> Inl e
            | Inr (qc1, _) \<Rightarrow> Inr qc1))"

section \<open>Layerflip Mutator: \<^verbatim>\<open>layerflip_mutate\<close>\<close>

text \<open>
  The helpers of \<^verbatim>\<open>qoop.backend.utilities\<close> and the generator
  \<^verbatim>\<open>random_circuit.generate_with_pool\<close> are not among the sources. The mutator takes them
  as parameters; each may raise, and the generator reads the randomness source.
\<close>

record utilities =
  divide_circuit_by_depth :: "circuit \<Rightarrow> int \<Rightarrow> py_error + circuit \<times> circuit"
  compose_circuit :: "circuit list \<Rightarrow> py_error + circuit"
  truncate_circuit :: "circuit \<Rightarrow> int \<Rightarrow> py_error + circuit"

type_synonym generator = "nat \<Rightarrow> int \<Rightarrow> random_state \<Rightarrow> py_error + circuit \<times> random_state"

text \<open>Lines 84--88: the body run at an accepted offset.\<close>

definition layerflip_step ::
  "utilities \<Rightarrow> generator \<Rightarrow> int \<Rightarrow> int \<Rightarrow> circuit \<Rightarrow> random_state
     \<Rightarrow> py_error + circuit \<times> random_state"
where
  "layerflip_step U generate_with_pool standard_depth index qc r =
     (case divide_circuit_by_depth U qc index of
        Inl e \<Rightarrow> Inl e
      | Inr (qc1, qc2) \<Rightarrow>
     (case divide_circuit_by_depth U qc2 1 of
        Inl e \<Rightarrow> Inl e
      | Inr (qc21, qc22) \<Rightarrow>
     (case generate_with_pool (qc_num_qubits qc) 1 r of
        Inl e \<Rightarrow> Inl e
      | Inr (genome, r') \<Rightarrow>
     (case compose_circuit U [qc1, genome, qc22] of
        Inl e \<Rightarrow> Inl e
      | Inr composed \<Rightarrow>
     (case truncate_circuit U composed standard_depth of
        Inl e \<Rightarrow> Inl e
      | Inr truncated \<Rightarrow> Inr (truncated, r'))))))"

fun layerflip_loop ::
  "utilities \<Rightarrow> generator \<Rightarrow> rat \<Rightarrow> int \<Rightarrow> int list \<Rightarrow> circuit \<Rightarrow> random_state
     \<Rightarrow> py_error + circuit \<times> random_state"
where
  "layerflip_loop U G prob_mutate standard_depth [] qc r = Inr (qc, r)"
| "layerflip_loop U G prob_mutate standard_depth (index # rest) qc r =
     (if fst (random_random r) < prob_mutate then
        (case layerflip_step U G standard_depth index qc (snd (random_random r)) of
           Inl e \<Rightarrow> Inl e
         | Inr (qc', r') \<Rightarrow> layerflip_loop U G prob_mutate standard_depth rest qc' r')
      else layerflip_loop U G prob_mutate standard_depth rest qc (snd (random_random r)))"

definition layerflip_mutate ::
  "utilities \<Rightarrow> generator \<Rightarrow> circuit \<Rightarrow> rat \<Rightarrow> random_state
     \<Rightarrow> py_error + circuit \<times> random_state"
where
  "layerflip_mutate U G qc prob_mutate r =
     (let standard_depth = depth qc
      in layerflip_loop U G prob_mutate (int standard_depth)
           (map int [0..<standard_depth]) qc r)"

subsection \<open>The helpers as the spec describes them\<close>

text \<open>
  Modelled from the spec: \<^verbatim>\<open>utilities.divide_circuit_by_depth\<close> is not among the
  sources. The spec has it split a circuit at a depth offset into a prefix holding the
  depths below the offset and a suffix holding the rest, so that composing the parts
  reproduces the circuit: the prefix is the longest initial run of placements whose depth
  stays within the offset, the suffix is what follows. A negative offset is an invalid
  depth offset and raises.
\<close>

fun crop :: "nat \<Rightarrow> instruction list \<Rightarrow> instruction list \<Rightarrow> instruction list \<times> instruction list"
where
  "crop d front [] = (front, [])"
| "crop d front (x # xs) =
     (if depth_of (front @ [x]) \<le> d then crop d (front @ [x]) xs else (front, x # xs))"

definition divide_by_depth_spec :: "circuit \<Rightarrow> int \<Rightarrow> py_error + circuit \<times> circuit" where
  "divide_by_depth_spec qc d =
     (if d < 0 then Inl CircuitError
      else Inr (qc\<lparr>data := fst (crop (nat d) [] (data qc))\<rparr>,
                qc\<lparr>data := snd (crop (nat d) [] (data qc))\<rparr>))"

text \<open>
  Modelled from the spec: \<^verbatim>\<open>utilities.compose_circuit\<close> is not among the sources. The spec
  has it compose the sub-circuits, in the order given, into one circuit; mismatched qubit
  counts are an error of the collaborator.
\<close>

definition compose_spec :: "circuit list \<Rightarrow> py_error + circuit" where
  "compose_spec qcs =
     (case qcs of
        [] \<Rightarrow> Inl IndexError
      | qc # _ \<Rightarrow>
          if list_all (\<lambda>c. qc_num_qubits c = qc_num_qubits qc) qcs
          then Inr \<lparr>qc_num_qubits = qc_num_qubits qc, data = concat (map data qcs)\<rparr>
          else Inl CircuitError)"

text \<open>
  Modelled from the spec: \<^verbatim>\<open>utilities.truncate_circuit\<close> is not among the sources. The
  spec has it truncate a circuit back to a depth with the depth-normalizer, discarding the
  structure beyond that depth.
\<close>

definition truncate_spec :: "circuit \<Rightarrow> int \<Rightarrow> py_error + circuit" where
  "truncate_spec qc selected_depth =
     by_depth (\<lambda>d c. divide_by_depth_spec c d) selected_depth qc"

definition utilities_spec :: utilities where
  "utilities_spec =
     \<lparr>divide_circuit_by_depth = divide_by_depth_spec,
      compose_circuit = compose_spec,
      truncate_circuit = truncate_spec\<rparr>"

section \<open>Example data\<close>

text \<open>
  Gate classes of the circuit library as a pool names them, a few circuits, and tapes for
  the randomness source.
\<close>

definition HGate :: "param_arg \<Rightarrow> gate" where
  "HGate a = \<lparr>name = ''h'', num_qubits = 1, params = a\<rparr>"

definition RXGate :: "param_arg \<Rightarrow> gate" where
  "RXGate a = \<lparr>name = ''rx'', num_qubits = 1, params = a\<rparr>"

definition CXGate :: "param_arg \<Rightarrow> gate" where
  "CXGate a = \<lparr>name = ''cx'', num_qubits = 2, params = a\<rparr>"

definition CCXGate :: "param_arg \<Rightarrow> gate" where
  "CCXGate a = \<lparr>name = ''ccx'', num_qubits = 3, params = a\<rparr>"

definition CSwapGate :: "param_arg \<Rightarrow> gate" where
  "CSwapGate a = \<lparr>name = ''cswap'', num_qubits = 3, params = a\<rparr>"

definition h_entry :: descriptor where
  "h_entry = \<lparr>d_operation = HGate, num_params = 0\<rparr>"

definition rx_entry :: descriptor where
  "rx_entry = \<lparr>d_operation = RXGate, num_params = 1\<rparr>"

definition cx_entry :: descriptor where
  "cx_entry = \<lparr>d_operation = CXGate, num_params = 0\<rparr>"

definition cswap_entry :: descriptor where
  "cswap_entry = \<lparr>d_operation = CSwapGate, num_params = 0\<rparr>"

definition place :: "gate \<Rightarrow> nat list \<Rightarrow> instruction" where
  "place g qs = \<lparr>operation = g, qubits = qs, clbits = []\<rparr>"

definition tape :: "(nat \<Rightarrow> nat) \<Rightarrow> random_state" where
  "tape f = \<lparr>src = f, pos = 0\<rparr>"

definition qc_h :: circuit where
  "qc_h = \<lparr>qc_num_qubits = 1, data = [place (HGate NoParams) [0]]\<rparr>"

definition qc_rx :: circuit where
  "qc_rx = \<lparr>qc_num_qubits = 1, data = [place (RXGate (Parameter 0)) [0]]\<rparr>"

definition qc_cx :: circuit where
  "qc_cx = \<lparr>qc_num_qubits = 2, data = [place (CXGate NoParams) [0, 1]]\<rparr>"

definition qc_ccx :: circuit where
  "qc_ccx = \<lparr>qc_num_qubits = 3, data = [place (CCXGate NoParams) [0, 1, 2]]\<rparr>"

definition qc_cswap :: circuit where
  "qc_cswap = \<lparr>qc_num_qubits = 3, data = [place (CSwapGate NoParams) [0, 1, 2]]\<rparr>"

definition qc_rx_h :: circuit where
  "qc_rx_h = \<lparr>qc_num_qubits = 2,
     data = [place (RXGate (Parameter 0)) [0], place (HGate NoParams) [1]]\<rparr>"

definition qc_rx_rx :: circuit where
  "qc_rx_rx = \<lparr>qc_num_qubits = 2,
     data = [place (RXGate (Parameter 0)) [0], place (RXGate (Parameter 1)) [1]]\<rparr>"

definition qc_h_h :: circuit where
  "qc_h_h = \<lparr>qc_num_qubits = 2,
     data = [place (HGate NoParams) [0], place (HGate NoParams) [1]]\<rparr>"

definition qc_cx_h :: circuit where
  "qc_cx_h = \<lparr>qc_num_qubits = 2,
     data = [place (CXGate NoParams) [0, 1], place (HGate NoParams) [1]]\<rparr>"

definition qc_h_cx_h :: circuit where
  "qc_h_cx_h = \<lparr>qc_num_qubits = 2,
     data = [place (HGate NoParams) [0], place (CXGate NoParams) [0, 1],
             place (HGate NoParams) [1]]\<rparr>"

definition qc_h_rx_rx_h :: circuit where
  "qc_h_rx_rx_h = \<lparr>qc_num_qubits = 2,
     data = [place (HGate NoParams) [0], place (RXGate (Parameter 0)) [0],
             place (RXGate (Parameter 1)) [1], place (HGate NoParams) [1]]\<rparr>"

text \<open>
  A generator for the examples: whatever depth is asked for, it returns the depth-1 layer
  with one \<^verbatim>\<open>rx\<close> gate on every qubit, and reads nothing from the randomness source.
\<close>

definition rx_layer :: generator where
  "rx_layer n d r =
     Inr (\<lparr>qc_num_qubits = n,
           data = map (\<lambda>q. place (RXGate (Parameter (int q))) [q]) [0..<n]\<rparr>, r)"

text \<open>
  A tape whose cell 1 holds 0 and whose other cells hold \<open>2^52\<close>: \<^verbatim>\<open>random.random()\<close>
  reads 0 from cell 1 and one half everywhere else.
\<close>

definition tape_second :: random_state where
  "tape_second = tape (\<lambda>i. if i = 1 then 0 else 2 ^ 52)"

text \<open>A tape whose cell 1 holds 0 and whose other cells hold 1.\<close>

definition tape_dip :: random_state where
  "tape_dip = tape (\<lambda>i. if i = 1 then 0 else 1)"

lemmas example_defs = HGate_def RXGate_def CXGate_def CCXGate_def CSwapGate_def place_def
  tape_def h_entry_def rx_entry_def cx_entry_def cswap_entry_def
  qc_h_def qc_rx_def qc_cx_def qc_ccx_def qc_cswap_def qc_rx_h_def qc_rx_rx_def qc_h_h_def
  qc_cx_h_def qc_h_cx_h_def qc_h_rx_rx_h_def

section \<open>Basic facts\<close>

lemma position_lt: "position xs i = Some k \<Longrightarrow> k < length xs"
  by (auto simp: position_def split: if_splits)

lemma position_update [simp]: "position (xs[k := v]) i = position xs i"
  by (simp add: position_def)

lemma getitem_out_of_range: "int (length xs) \<le> i \<Longrightarrow> getitem xs i = Inl IndexError"
  by (simp add: getitem_def position_def)

lemma getitem_error: "getitem xs i = Inl e \<Longrightarrow> e = IndexError"
  by (auto simp: getitem_def split: option.splits)

lemma getitem_setitem: "setitem xs i v = Inr ys \<Longrightarrow> getitem ys i = Inr v"
  by (auto simp: getitem_def setitem_def position_lt split: option.splits)

lemma snd_random_random [simp]: "snd (random_random r) = advance 1 r"
  by (simp add: random_random_def)

lemma advance_advance [simp]: "advance k (advance j r) = advance (j + k) r"
  by (simp add: advance_def)

lemma advance_zero [simp]: "advance 0 r = r"
  by (simp add: advance_def)

lemma src_advance [simp]: "src (advance k r) = src r"
  by (simp add: advance_def)

lemma pos_advance [simp]: "pos (advance k r) = pos r + k"
  by (simp add: advance_def)

text \<open>\<^verbatim>\<open>random.random()\<close> returns a value in \<open>[0, 1)\<close>, whatever the tape holds.\<close>

lemma random_random_ge0: "0 \<le> fst (random_random r)"
  by (simp add: random_random_def)

lemma random_random_lt1: "fst (random_random r) < 1"
proof -
  have "src r (pos r) mod 2 ^ 53 < 2 ^ 53" by simp
  then have "(of_nat (src r (pos r) mod 2 ^ 53) :: rat) < of_nat (2 ^ 53)"
    by (simp only: of_nat_less_iff)
  then show ?thesis by (simp add: random_random_def)
qed

lemma random_choice_nonempty:
  "pool \<noteq> [] \<Longrightarrow> random_choice pool r = Inr (draw pool r, advance 1 r)"
  by (simp add: random_choice_def draw_def)

lemma draw_in_pool: "pool \<noteq> [] \<Longrightarrow> draw pool r \<in> set pool"
  by (simp add: draw_def)

section \<open>The redraw loop of the Site Mutator\<close>

text \<open>One turn of the loop, for a non-empty pool and a position that exists.\<close>

lemma loop_turn:
  assumes "pool \<noteq> []" and "getitem (data qc) index = Inr cur"
  shows "specific_mutate_loop qc pool index r =
           (if num_qubits (instantiate (draw pool r) index) = num_qubits (operation cur)
            then Some (Inr (instantiate (draw pool r) index, advance 1 r))
            else specific_mutate_loop qc pool index (advance 1 r))"
  by (subst specific_mutate_loop.simps) (simp add: assms random_choice_nonempty)

lemma loop_empty_pool: "specific_mutate_loop qc [] index r = Some (Inl IndexError)"
  by (subst specific_mutate_loop.simps) (simp add: random_choice_def)

lemma loop_out_of_range:
  "int (length (data qc)) \<le> index
     \<Longrightarrow> specific_mutate_loop qc pool index r = Some (Inl IndexError)"
  by (subst specific_mutate_loop.simps)
     (simp add: getitem_out_of_range random_choice_def)

text \<open>
  What the loop can return: an \<^verbatim>\<open>IndexError\<close> only from an empty pool or a position out
  of range, and otherwise the instance of a pool entry whose arity is that of the
  operation in place.
\<close>

lemma loop_result:
  "specific_mutate_loop qc pool index r = Some y \<Longrightarrow>
     (case y of
        Inl e \<Rightarrow> e = IndexError \<and> (pool = [] \<or> getitem (data qc) index = Inl IndexError)
      | Inr (g, r') \<Rightarrow>
          \<exists>cur d. getitem (data qc) index = Inr cur \<and> d \<in> set pool
                 \<and> g = instantiate d index
                 \<and> num_qubits g = num_qubits (operation cur))"
proof (erule specific_mutate_loop.raw_induct[rotated 1], goal_cases)
  case (1 loop qc pool index r y)
  show ?case
  proof (cases "pool = []")
    case True
    with 1(2) show ?thesis by (auto simp: random_choice_def)
  next
    case pool: False
    show ?thesis
    proof (cases "getitem (data qc) index")
      case (Inl e)
      with 1(2) pool getitem_error[OF Inl] show ?thesis
        by (auto simp: random_choice_nonempty)
    next
      case cur: (Inr cur)
      show ?thesis
      proof (cases "num_qubits (instantiate (draw pool r) index) = num_qubits (operation cur)")
        case True
        with 1(2) pool cur draw_in_pool[OF pool, of r] show ?thesis
          by (auto simp: random_choice_nonempty)
      next
        case False
        with 1(2) pool cur have "loop qc pool index (advance 1 r) = Some y"
          by (simp add: random_choice_nonempty)
        from 1(1)[OF this] show ?thesis .
      qed
    qed
  qed
qed

lemma loop_accepts:
  assumes "specific_mutate_loop qc pool index r = Some (Inr (g, r'))"
    and "getitem (data qc) index = Inr cur"
  shows "num_qubits g = num_qubits (operation cur)"
    and "\<exists>d\<in>set pool. num_qubits (instantiate d index) = num_qubits (operation cur)"
  using loop_result[OF assms(1)] assms(2) by auto

text \<open>The loop returns as soon as some later draw has the arity of the operation in place.\<close>

lemma loop_returns:
  assumes "pool \<noteq> []" and "getitem (data qc) index = Inr cur"
    and "num_qubits (instantiate (draw pool (advance k r)) index) = num_qubits (operation cur)"
  shows "\<exists>g r'. specific_mutate_loop qc pool index r = Some (Inr (g, r'))"
  using assms(3)
proof (induction k arbitrary: r)
  case 0
  then show ?case by (simp add: loop_turn[OF assms(1,2)])
next
  case (Suc k)
  from Suc.prems
  have "num_qubits (instantiate (draw pool (advance k (advance 1 r))) index)
          = num_qubits (operation cur)"
    by simp
  from Suc.IH[OF this] show ?case
    by (subst loop_turn[OF assms(1,2)]) simp
qed

lemma testing_loop_turn:
  assumes "pool \<noteq> []" and "getitem (data qc) index = Inr cur"
  shows "specific_mutate_testing_loop qc pool index Q n rot r =
           (if num_qubits (instantiate (draw pool r) index) = num_qubits (operation cur)
               \<and> (is_rotational (instantiate (draw pool r) index) \<or> (\<not> rot \<and> Q \<le> n))
            then Some (Inr (instantiate (draw pool r) index, advance 1 r))
            else specific_mutate_testing_loop qc pool index Q n rot (advance 1 r))"
  by (subst specific_mutate_testing_loop.simps) (auto simp: assms random_choice_nonempty)

lemma specific_mutate_None_iff:
  "specific_mutate qc pool index r = None \<longleftrightarrow> specific_mutate_loop qc pool index r = None"
  by (auto simp: specific_mutate_def split: option.splits sum.splits)

text \<open>Without an entry of the arity in place, a non-empty pool keeps the loop turning.\<close>

lemma loop_never_returns:
  assumes "pool \<noteq> []" and "getitem (data qc) index = Inr cur"
    and "\<forall>d\<in>set pool. num_qubits (instantiate d index) \<noteq> num_qubits (operation cur)"
  shows "specific_mutate_loop qc pool index r = None"
proof (cases "specific_mutate_loop qc pool index r")
  case None
  then show ?thesis .
next
  case (Some y)
  show ?thesis
  proof (cases y)
    case (Inl e)
    with loop_result[OF Some] assms(1,2) show ?thesis by auto
  next
    case (Inr p)
    obtain g r' where "p = (g, r')" by (cases p)
    with Some Inr have "specific_mutate_loop qc pool index r = Some (Inr (g, r'))" by simp
    from loop_accepts(2)[OF this assms(2)] assms(3) show ?thesis by blast
  qed
qed

section \<open>The overwrite of the Site Mutator\<close>

lemma overwrite_getitem:
  "overwrite qc index g qs = Inr qc' \<Longrightarrow>
     getitem (data qc') index = Inr \<lparr>operation = g, qubits = qs, clbits = []\<rparr>"
  by (auto simp: overwrite_def split: sum.splits dest: getitem_setitem)

lemma overwrite_data:
  "overwrite qc index g qs = Inr qc' \<Longrightarrow>
     \<exists>k. position (data qc) index = Some k
        \<and> data qc' = (data qc)[k := \<lparr>operation = g, qubits = qs, clbits = []\<rparr>]"
  by (auto simp: overwrite_def setitem_def split: sum.splits option.splits)

lemma rebind_getitem:
  assumes "rebind qc index g tq = Inr qc'" and "getitem (data qc) index = Inr old"
    and "num_qubits g = num_qubits (operation old)"
  shows "\<exists>new. getitem (data qc') index = Inr new
           \<and> num_qubits (operation new) = num_qubits (operation old)"
  using assms
  by (auto simp: rebind_def split: if_splits sum.splits dest!: overwrite_getitem)

text \<open>
  Claim C1. For every circuit and every valid position, when \<^verbatim>\<open>specific_mutate\<close> returns,
  the operation at that position has the qubit arity of the operation that was there
  before the call.
\<close>

theorem specific_mutate_same_arity:
  assumes "specific_mutate qc pool index r = Some (Inr (qc', r'))"
    and "getitem (data qc) index = Inr old"
  shows "\<exists>new. getitem (data qc') index = Inr new
           \<and> num_qubits (operation new) = num_qubits (operation old)"
proof -
  from assms obtain g where loop: "specific_mutate_loop qc pool index r = Some (Inr (g, r'))"
    and rb: "rebind qc index g (qubits old) = Inr qc'"
    by (auto simp: specific_mutate_def split: option.splits sum.splits)
  from loop_accepts(1)[OF loop assms(2)] rebind_getitem[OF rb assms(2)]
  show ?thesis by simp
qed

text \<open>
  A run: the \<^verbatim>\<open>h\<close> gate of a one-gate circuit is replaced by an \<^verbatim>\<open>rx\<close> gate whose
  parameter is named after the position.
\<close>

lemma specific_mutate_h_run:
  "specific_mutate qc_h [rx_entry] 0 (tape (\<lambda>_. 0)) = Some (Inr (qc_rx, advance 1 (tape (\<lambda>_. 0))))"
  by (simp add: specific_mutate_def loop_turn[where cur = "place (HGate NoParams) [0]"]
      draw_def instantiate_def rebind_def overwrite_def getitem_def setitem_def position_def
      example_defs)

theorem specific_mutate_same_arity_witness:
  "specific_mutate qc_h [rx_entry] 0 (tape (\<lambda>_. 0)) = Some (Inr (qc_rx, advance 1 (tape (\<lambda>_. 0))))
   \<and> getitem (data qc_h) 0 = Inr (place (HGate NoParams) [0])
   \<and> (\<exists>new. getitem (data qc_rx) 0 = Inr new
         \<and> num_qubits (operation new) = num_qubits (operation (place (HGate NoParams) [0])))"
proof -
  have old: "getitem (data qc_h) 0 = Inr (place (HGate NoParams) [0])"
    by (simp add: getitem_def position_def example_defs)
  from specific_mutate_same_arity[OF specific_mutate_h_run old] specific_mutate_h_run old
  show ?thesis by simp
qed

text \<open>
  What the overwrite does, by arity. For arity 1 and arity 2 the position receives the
  accepted operation, the leading target qubits and no classical bits; for any other
  arity the circuit comes back as it was.
\<close>

lemma getitem_zero: "getitem xs 0 = Inr x \<Longrightarrow> xs \<noteq> [] \<and> x = xs ! 0"
  by (auto simp: getitem_def position_def split: if_splits)

lemma rebind_small_arity:
  assumes "rebind qc index g tq = Inr qc'"
    and "num_qubits g = 1 \<or> num_qubits g = 2"
  shows "getitem (data qc') index
           = Inr \<lparr>operation = g, qubits = take (num_qubits g) tq, clbits = []\<rparr>"
proof (cases "num_qubits g = 1")
  case True
  with assms(1) obtain q0 where q0: "getitem tq 0 = Inr q0"
    and ow: "overwrite qc index g [q0] = Inr qc'"
    by (auto simp: rebind_def split: sum.splits)
  from getitem_zero[OF q0] have "take 1 tq = [q0]" by (cases tq) auto
  with overwrite_getitem[OF ow] True show ?thesis by simp
next
  case False
  with assms(2) have two: "num_qubits g = 2" by simp
  show ?thesis
  proof (cases "length tq > 1")
    case True
    with assms(1) two have ow: "overwrite qc index g [tq ! 0, tq ! 1] = Inr qc'"
      by (simp add: rebind_def)
    from True have "take 2 tq = [tq ! 0, tq ! 1]"
      by (cases tq; cases "tl tq") auto
    with overwrite_getitem[OF ow] two show ?thesis by simp
  next
    case short: False
    with assms(1) two obtain q0 where q0: "getitem tq 0 = Inr q0"
      and ow: "overwrite qc index g [q0] = Inr qc'"
      by (auto simp: rebind_def split: sum.splits)
    from getitem_zero[OF q0] short have "take 2 tq = [q0]" by (cases tq) auto
    with overwrite_getitem[OF ow] two show ?thesis by simp
  qed
qed

lemma specific_mutate_overwrites:
  assumes "specific_mutate qc pool index r = Some (Inr (qc', r'))"
    and "getitem (data qc) index = Inr old"
    and "num_qubits (operation old) = 1 \<or> num_qubits (operation old) = 2"
  shows "\<exists>d\<in>set pool. getitem (data qc') index
           = Inr \<lparr>operation = instantiate d index,
                  qubits = take (num_qubits (operation old)) (qubits old), clbits = []\<rparr>"
proof -
  from assms obtain g where loop: "specific_mutate_loop qc pool index r = Some (Inr (g, r'))"
    and rb: "rebind qc index g (qubits old) = Inr qc'"
    by (auto simp: specific_mutate_def split: option.splits sum.splits)
  from loop_result[OF loop] assms(2) obtain d where d: "d \<in> set pool" "g = instantiate d index"
    and ar: "num_qubits g = num_qubits (operation old)"
    by auto
  from rebind_small_arity[OF rb] assms(3) ar d show ?thesis by auto
qed

lemma specific_mutate_other_arity:
  assumes "specific_mutate qc pool index r = Some (Inr (qc', r'))"
    and "getitem (data qc) index = Inr old"
    and "num_qubits (operation old) \<noteq> 1" and "num_qubits (operation old) \<noteq> 2"
  shows "qc' = qc"
proof -
  from assms obtain g where loop: "specific_mutate_loop qc pool index r = Some (Inr (g, r'))"
    and rb: "rebind qc index g (qubits old) = Inr qc'"
    by (auto simp: specific_mutate_def split: option.splits sum.splits)
  from loop_accepts(1)[OF loop assms(2)] rb assms(3,4) show ?thesis
    by (simp add: rebind_def)
qed

text \<open>
  Claim C2, at an input where the code departs from it. The position holds the three-qubit
  \<^verbatim>\<open>ccx\<close> and the pool holds the three-qubit \<^verbatim>\<open>cswap\<close>. The draw is accepted, yet
  \<^verbatim>\<open>specific_mutate\<close> returns the circuit with \<^verbatim>\<open>ccx\<close> still in place: lines 27--30 have
  a branch for arity 1 and for arity 2 only. The constrained variant
  \<^verbatim>\<open>specific_mutate_testing\<close>, on the same input, does overwrite the position.
\<close>

theorem specific_mutate_arity_three_kept:
  "specific_mutate_loop qc_ccx [cswap_entry] 0 (tape (\<lambda>_. 0))
     = Some (Inr (CSwapGate NoParams, advance 1 (tape (\<lambda>_. 0))))
   \<and> specific_mutate qc_ccx [cswap_entry] 0 (tape (\<lambda>_. 0))
     = Some (Inr (qc_ccx, advance 1 (tape (\<lambda>_. 0))))
   \<and> specific_mutate_testing qc_ccx [cswap_entry] 0 0 (tape (\<lambda>_. 0))
     = Some (Inr (qc_cswap, advance 1 (tape (\<lambda>_. 0))))"
proof -
  have cur: "getitem (data qc_ccx) 0 = Inr (place (CCXGate NoParams) [0, 1, 2])"
    by (simp add: getitem_def position_def example_defs)
  have loop: "specific_mutate_loop qc_ccx [cswap_entry] 0 (tape (\<lambda>_. 0))
      = Some (Inr (CSwapGate NoParams, advance 1 (tape (\<lambda>_. 0))))"
    by (subst loop_turn[OF _ cur]) (simp_all add: draw_def instantiate_def example_defs)
  have plain: "specific_mutate qc_ccx [cswap_entry] 0 (tape (\<lambda>_. 0))
      = Some (Inr (qc_ccx, advance 1 (tape (\<lambda>_. 0))))"
    by (simp add: specific_mutate_def loop cur rebind_def) (simp add: example_defs)
  have "specific_mutate_testing_loop qc_ccx [cswap_entry] 0 0 (num_rot_gates qc_ccx)
      (is_rotational (CCXGate NoParams)) (tape (\<lambda>_. 0))
      = Some (Inr (CSwapGate NoParams, advance 1 (tape (\<lambda>_. 0))))"
    by (subst testing_loop_turn[OF _ cur])
       (simp_all add: draw_def instantiate_def is_rotational_def num_rot_gates_def example_defs)
  then have constrained: "specific_mutate_testing qc_ccx [cswap_entry] 0 0 (tape (\<lambda>_. 0))
      = Some (Inr (qc_cswap, advance 1 (tape (\<lambda>_. 0))))"
    by (simp add: specific_mutate_testing_def cur place_def)
       (simp add: overwrite_def setitem_def position_def example_defs)
  from loop plain constrained show ?thesis by simp
qed

text \<open>
  Claim C8, as amended. For every circuit, every position that exists and every
  non-empty pool: when no entry of the pool has the arity of the operation in place,
  \<^verbatim>\<open>specific_mutate\<close> never returns, whatever the randomness source yields; and it
  does return (or raise) as soon as some later draw has that arity.
\<close>

theorem specific_mutate_spins:
  assumes "pool \<noteq> []" and "getitem (data qc) index = Inr cur"
  shows "((\<forall>d\<in>set pool. num_qubits (instantiate d index) \<noteq> num_qubits (operation cur))
            \<longrightarrow> specific_mutate qc pool index r = None)
       \<and> ((\<exists>k. num_qubits (instantiate (draw pool (advance k r)) index)
                 = num_qubits (operation cur))
            \<longrightarrow> specific_mutate qc pool index r \<noteq> None)"
proof (intro conjI impI)
  assume no: "\<forall>d\<in>set pool. num_qubits (instantiate d index) \<noteq> num_qubits (operation cur)"
  show "specific_mutate qc pool index r = None"
  proof (rule ccontr)
    assume "specific_mutate qc pool index r \<noteq> None"
    then obtain y where y: "specific_mutate_loop qc pool index r = Some y"
      by (auto simp: specific_mutate_None_iff)
    show False
    proof (cases y)
      case (Inl e)
      with loop_result[OF y] assms show ?thesis by auto
    next
      case (Inr p)
      obtain g r' where "p = (g, r')" by (cases p)
      with y Inr have "specific_mutate_loop qc pool index r = Some (Inr (g, r'))" by simp
      from loop_accepts(2)[OF this assms(2)] no show ?thesis by blast
    qed
  qed
next
  assume "\<exists>k. num_qubits (instantiate (draw pool (advance k r)) index)
                 = num_qubits (operation cur)"
  then obtain k where "num_qubits (instantiate (draw pool (advance k r)) index)
      = num_qubits (operation cur)"
    by blast
  from loop_returns[OF assms this] show "specific_mutate qc pool index r \<noteq> None"
    by (auto simp: specific_mutate_None_iff)
qed

text \<open>
  Two runs: a pool of one-qubit entries never yields a replacement for a \<^verbatim>\<open>cx\<close> gate,
  and a pool with an \<^verbatim>\<open>rx\<close> entry yields one for an \<^verbatim>\<open>h\<close> gate once that entry is drawn.
\<close>

theorem specific_mutate_spins_witness:
  "specific_mutate qc_cx [h_entry, rx_entry] 0 (tape (\<lambda>i. i)) = None
   \<and> specific_mutate qc_h [cx_entry, rx_entry] 0 (tape (\<lambda>i. i)) \<noteq> None"
proof -
  have cx: "getitem (data qc_cx) 0 = Inr (place (CXGate NoParams) [0, 1])"
    by (simp add: getitem_def position_def example_defs)
  have no: "\<forall>d\<in>set [h_entry, rx_entry].
      num_qubits (instantiate d 0) \<noteq> num_qubits (operation (place (CXGate NoParams) [0, 1]))"
    by (simp add: instantiate_def example_defs)
  have h: "getitem (data qc_h) 0 = Inr (place (HGate NoParams) [0])"
    by (simp add: getitem_def position_def example_defs)
  have "num_qubits (instantiate (draw [cx_entry, rx_entry] (advance 1 (tape (\<lambda>i. i)))) 0)
      = num_qubits (operation (place (HGate NoParams) [0]))"
    by (simp add: draw_def advance_def instantiate_def example_defs)
  then have yes: "\<exists>k. num_qubits (instantiate (draw [cx_entry, rx_entry] (advance k (tape (\<lambda>i. i)))) 0)
      = num_qubits (operation (place (HGate NoParams) [0]))"
    by blast
  from specific_mutate_spins[OF _ cx, where r = "tape (\<lambda>i. i)"] no
    specific_mutate_spins[OF _ h, where r = "tape (\<lambda>i. i)"] yes
  show ?thesis by simp
qed

text \<open>
  Claim C8 as stated fails for the empty pool: it has no entry of any arity, and
  \<^verbatim>\<open>random.choice\<close> raises \<^verbatim>\<open>IndexError\<close> on the first turn of the loop instead of spinning.
\<close>

theorem specific_mutate_empty_pool_raises:
  "getitem (data qc_h) 0 = Inr (place (HGate NoParams) [0])
   \<and> specific_mutate qc_h [] 0 (tape (\<lambda>_. 0)) = Some (Inl IndexError)"
  by (simp add: specific_mutate_def loop_empty_pool getitem_def position_def example_defs)

text \<open>
  Claim C9. For every circuit and every position index greater than or equal to the gate
  count, \<^verbatim>\<open>specific_mutate\<close> raises \<^verbatim>\<open>IndexError\<close> on the first turn of the loop: nothing
  catches it and no redraw follows, for every pool and every randomness source.
\<close>

theorem specific_mutate_out_of_range:
  "int (length (data qc)) \<le> index \<Longrightarrow> specific_mutate qc pool index r = Some (Inl IndexError)"
  by (simp add: specific_mutate_def loop_out_of_range)

theorem specific_mutate_out_of_range_witness:
  "int (length (data qc_h)) \<le> 1
   \<and> specific_mutate qc_h [h_entry, rx_entry] 1 (tape (\<lambda>_. 0)) = Some (Inl IndexError)"
proof -
  have len: "int (length (data qc_h)) \<le> 1" by (simp add: example_defs)
  from specific_mutate_out_of_range[OF len] len show ?thesis by simp
qed


section \<open>The constrained Site Mutator\<close>

lemma testing_loop_result:
  "specific_mutate_testing_loop qc pool index Q n rot r = Some y \<Longrightarrow>
     (case y of
        Inl e \<Rightarrow> True
      | Inr (g, r') \<Rightarrow>
          \<exists>cur. getitem (data qc) index = Inr cur
               \<and> num_qubits g = num_qubits (operation cur)
               \<and> (is_rotational g \<or> (\<not> rot \<and> Q \<le> n)))"
proof (erule specific_mutate_testing_loop.raw_induct[rotated 1], goal_cases)
  case (1 loop qc pool index Q n rot r y)
  show ?case
  proof (cases "random_choice pool r")
    case (Inl e)
    with 1(2) show ?thesis by auto
  next
    case (Inr dr)
    obtain new_gate r1 where dr: "dr = (new_gate, r1)" by (cases dr)
    show ?thesis
    proof (cases "getitem (data qc) index")
      case (Inl e)
      with 1(2) Inr dr show ?thesis by auto
    next
      case cur: (Inr cur)
      show ?thesis
      proof (cases "num_qubits (instantiate new_gate index) = num_qubits (operation cur)
                  \<and> (is_rotational (instantiate new_gate index) \<or> (\<not> rot \<and> Q \<le> n))")
        case True
        with 1(2) Inr dr cur show ?thesis by auto
      next
        case False
        with 1(2) Inr dr cur have "loop qc pool index Q n rot r1 = Some y" by auto
        from 1(1)[OF this] show ?thesis .
      qed
    qed
  qed
qed

lemma num_rot_gates_length:
  "num_rot_gates qc = int (length (filter (\<lambda>g. is_rotational (operation g)) (data qc)))"
  by (simp add: num_rot_gates_def sum_list_triv)

lemma filter_update_length:
  assumes "k < length xs" and "P v \<or> \<not> P (xs ! k)"
  shows "length (filter P xs) \<le> length (filter P (xs[k := v]))"
  using assms
proof (induction xs arbitrary: k)
  case Nil
  then show ?case by simp
next
  case (Cons x xs)
  then show ?case by (cases k) auto
qed

text \<open>
  One constrained call: the replacement has the arity of the operation in place, it passed
  the acceptance test of line 125, and the rotation count did not go down.
\<close>

lemma testing_call:
  assumes "specific_mutate_testing qc pool index Q r = Some (Inr (qc', r'))"
  shows "\<exists>old g. getitem (data qc) index = Inr old
           \<and> getitem (data qc') index = Inr \<lparr>operation = g, qubits = qubits old, clbits = []\<rparr>
           \<and> num_qubits g = num_qubits (operation old)
           \<and> (is_rotational g \<or> (\<not> is_rotational (operation old) \<and> Q \<le> num_rot_gates qc))
           \<and> num_rot_gates qc \<le> num_rot_gates qc'"
proof -
  from assms obtain old g where old: "getitem (data qc) index = Inr old"
    and loop: "specific_mutate_testing_loop qc pool index Q (num_rot_gates qc)
                 (is_rotational (operation old)) r = Some (Inr (g, r'))"
    and ow: "overwrite qc index g (qubits old) = Inr qc'"
    by (auto simp: specific_mutate_testing_def split: option.splits sum.splits)
  from testing_loop_result[OF loop] old
  have acc: "num_qubits g = num_qubits (operation old)"
    "is_rotational g \<or> (\<not> is_rotational (operation old) \<and> Q \<le> num_rot_gates qc)"
    by auto
  from overwrite_data[OF ow] obtain k where k: "position (data qc) index = Some k"
    and d: "data qc' = (data qc)[k := \<lparr>operation = g, qubits = qubits old, clbits = []\<rparr>]"
    by blast
  from old k have oldk: "old = data qc ! k" by (simp add: getitem_def)
  have "length (filter (\<lambda>x. is_rotational (operation x)) (data qc))
      \<le> length (filter (\<lambda>x. is_rotational (operation x)) (data qc'))"
    unfolding d using acc(2) oldk
    by (intro filter_update_length position_lt[OF k]) auto
  then have "num_rot_gates qc \<le> num_rot_gates qc'"
    by (simp add: num_rot_gates_length)
  with old acc overwrite_getitem[OF ow] show ?thesis by blast
qed

lemma testing_seq_mono:
  "specific_mutate_testing_seq Q calls qc r = Some (Inr (qc', r'))
     \<Longrightarrow> num_rot_gates qc \<le> num_rot_gates qc'"
proof (induction calls arbitrary: qc r)
  case Nil
  then show ?case by simp
next
  case (Cons c calls)
  obtain pool index where c: "c = (pool, index)" by (cases c)
  from Cons.prems c obtain qc1 r1 where
    one: "specific_mutate_testing qc pool index Q r = Some (Inr (qc1, r1))"
    and rest: "specific_mutate_testing_seq Q calls qc1 r1 = Some (Inr (qc', r'))"
    by (auto split: option.splits sum.splits)
  from testing_call[OF one] Cons.IH[OF rest] show ?case by auto
qed

text \<open>
  Claim C3. Take any sequence of constrained mutations that returns, followed by one more
  constrained call. If the count of rotation gates (\<^verbatim>\<open>rx\<close>, \<^verbatim>\<open>ry\<close>, \<^verbatim>\<open>rz\<close>) was at
  least \<open>Q\<close> at the start, it is at least \<open>Q\<close> after the sequence and after the further
  call. The further call accepted its replacement only because the new operation is a
  rotation gate, or the replaced operation was none and the count was at least \<open>Q\<close>.
\<close>

theorem rotation_floor:
  assumes "specific_mutate_testing_seq Q calls qc r = Some (Inr (qc1, r1))"
    and "specific_mutate_testing qc1 pool index Q r1 = Some (Inr (qc2, r2))"
  shows "(Q \<le> num_rot_gates qc \<longrightarrow> Q \<le> num_rot_gates qc1 \<and> Q \<le> num_rot_gates qc2)
       \<and> (\<exists>old new. getitem (data qc1) index = Inr old \<and> getitem (data qc2) index = Inr new
             \<and> (is_rotational (operation new)
                  \<or> (\<not> is_rotational (operation old) \<and> Q \<le> num_rot_gates qc1)))"
proof -
  from testing_seq_mono[OF assms(1)] have m1: "num_rot_gates qc \<le> num_rot_gates qc1" .
  from testing_call[OF assms(2)] obtain old g where
    old: "getitem (data qc1) index = Inr old"
    and new: "getitem (data qc2) index = Inr \<lparr>operation = g, qubits = qubits old, clbits = []\<rparr>"
    and acc: "is_rotational g \<or> (\<not> is_rotational (operation old) \<and> Q \<le> num_rot_gates qc1)"
    and m2: "num_rot_gates qc1 \<le> num_rot_gates qc2"
    by blast
  from old new acc
  have "\<exists>old new. getitem (data qc1) index = Inr old \<and> getitem (data qc2) index = Inr new
          \<and> (is_rotational (operation new)
               \<or> (\<not> is_rotational (operation old) \<and> Q \<le> num_rot_gates qc1))"
    by (intro exI[of _ old] exI[of _ "\<lparr>operation = g, qubits = qubits old, clbits = []\<rparr>"]) simp
  with m1 m2 show ?thesis by simp
qed

text \<open>
  A run with \<open>Q = 1\<close> on \<^verbatim>\<open>rx\<close>, \<^verbatim>\<open>h\<close>: the \<^verbatim>\<open>h\<close> gate becomes an \<^verbatim>\<open>rx\<close> gate; then, at the
  first position, an \<^verbatim>\<open>h\<close> draw is turned down, because it would remove a rotation gate,
  and the following \<^verbatim>\<open>rx\<close> draw is taken.
\<close>

lemma testing_first_call:
  "specific_mutate_testing qc_rx_h [h_entry, rx_entry] 1 1 tape_dip
     = Some (Inr (qc_rx_rx, advance 1 tape_dip))"
proof -
  have cur: "getitem (data qc_rx_h) 1 = Inr (place (HGate NoParams) [1])"
    by (simp add: getitem_def position_def example_defs)
  have "specific_mutate_testing_loop qc_rx_h [h_entry, rx_entry] 1 1 (num_rot_gates qc_rx_h)
      (is_rotational (HGate NoParams)) tape_dip
      = Some (Inr (RXGate (Parameter 1), advance 1 tape_dip))"
    by (subst testing_loop_turn[OF _ cur])
       (simp_all add: draw_def instantiate_def is_rotational_def tape_dip_def example_defs)
  then show ?thesis
    by (simp add: specific_mutate_testing_def cur place_def)
       (simp add: overwrite_def setitem_def position_def example_defs)
qed

lemma testing_second_call:
  "specific_mutate_testing qc_rx_rx [h_entry, rx_entry] 0 1 (advance 1 tape_dip)
     = Some (Inr (qc_rx_rx, advance 3 tape_dip))"
proof -
  have cur: "getitem (data qc_rx_rx) 0 = Inr (place (RXGate (Parameter 0)) [0])"
    by (simp add: getitem_def position_def example_defs)
  have "specific_mutate_testing_loop qc_rx_rx [h_entry, rx_entry] 0 1 (num_rot_gates qc_rx_rx)
      (is_rotational (RXGate (Parameter 0))) (advance 1 tape_dip)
      = specific_mutate_testing_loop qc_rx_rx [h_entry, rx_entry] 0 1 (num_rot_gates qc_rx_rx)
      (is_rotational (RXGate (Parameter 0))) (advance 2 tape_dip)"
    by (subst testing_loop_turn[OF _ cur])
       (simp_all add: draw_def instantiate_def is_rotational_def tape_dip_def example_defs
          numeral_2_eq_2)
  also have "\<dots> = Some (Inr (RXGate (Parameter 0), advance 3 tape_dip))"
    by (subst testing_loop_turn[OF _ cur])
       (simp_all add: draw_def instantiate_def is_rotational_def tape_dip_def example_defs
          advance_def)
  finally show ?thesis
    by (simp add: specific_mutate_testing_def cur place_def)
       (simp add: overwrite_def setitem_def position_def example_defs)
qed

theorem rotation_floor_witness:
  "specific_mutate_testing_seq 1 [([h_entry, rx_entry], 1)] qc_rx_h tape_dip
     = Some (Inr (qc_rx_rx, advance 1 tape_dip))
   \<and> specific_mutate_testing qc_rx_rx [h_entry, rx_entry] 0 1 (advance 1 tape_dip)
     = Some (Inr (qc_rx_rx, advance 3 tape_dip))
   \<and> 1 \<le> num_rot_gates qc_rx_h \<and> 1 \<le> num_rot_gates qc_rx_rx"
proof -
  have seq: "specific_mutate_testing_seq 1 [([h_entry, rx_entry], 1)] qc_rx_h tape_dip
      = Some (Inr (qc_rx_rx, advance 1 tape_dip))"
    by (simp add: testing_first_call)
  have start: "1 \<le> num_rot_gates qc_rx_h"
    by (simp add: num_rot_gates_def is_rotational_def example_defs)
  from rotation_floor[OF seq testing_second_call] start seq testing_second_call
  show ?thesis by simp
qed


section \<open>The Bitflip Mutator\<close>

lemma bitflip_loop_never:
  "bitflip_mutate_loop pool 0 idxs qc r visited
     = Some (Inr (qc, advance (length idxs) r, visited))"
proof (induction idxs arbitrary: r)
  case Nil
  then show ?case by simp
next
  case (Cons i idxs)
  have "\<not> fst (random_random r) < 0" using random_random_ge0[of r] by simp
  then show ?case by (simp add: Cons.IH)
qed

text \<open>
  With probability 1 every coin is below the threshold, so the loop is the pass over its
  positions: same circuit, same generator state, same exception, same failure to return.
\<close>

lemma bitflip_loop_always:
  "bitflip_mutate_loop pool 1 idxs qc r visited =
     (case visit_each_position pool idxs qc r of
        None \<Rightarrow> None
      | Some (Inl e) \<Rightarrow> Some (Inl e)
      | Some (Inr (qc', r')) \<Rightarrow> Some (Inr (qc', r', visited @ idxs)))"
proof (induction idxs arbitrary: qc r visited)
  case Nil
  then show ?case by simp
next
  case (Cons i idxs)
  have coin: "fst (random_random r) < 1" by (rule random_random_lt1)
  show ?case
  proof (cases "specific_mutate qc pool i (advance 1 r)")
    case None
    with coin show ?thesis by simp
  next
    case (Some y)
    show ?thesis
    proof (cases y)
      case (Inl e)
      with Some coin show ?thesis by simp
    next
      case (Inr p)
      obtain qc1 r1 where "p = (qc1, r1)" by (cases p)
      with Some Inr coin show ?thesis
        by (simp add: Cons.IH split: option.splits sum.splits)
    qed
  qed
qed

text \<open>
  Claim C5, as amended. For every circuit, the function made by \<^verbatim>\<open>bitflip_mutate\<close> with
  probability 1 is the pass that invokes \<^verbatim>\<open>specific_mutate\<close> once at each position
  \<open>0, 1, \<dots>\<close> below the gate count read before the first mutation, in position order,
  each call on the circuit the previous call returned. When every call returns, the pass
  returns the last circuit and every position has been visited exactly once; a call that
  raises or never returns ends the pass, and the positions after it are not visited.
\<close>

theorem bitflip_mutate_prob_one:
  "bitflip_mutate pool 1 qc r =
     (case visit_each_position pool (map int [0..<length (data qc)]) qc r of
        None \<Rightarrow> None
      | Some (Inl e) \<Rightarrow> Some (Inl e)
      | Some (Inr (qc', r')) \<Rightarrow> Some (Inr (qc', r', map int [0..<length (data qc)])))"
  by (simp add: bitflip_mutate_def Let_def bitflip_loop_always
      split: option.splits sum.splits)

text \<open>A run on \<^verbatim>\<open>rx\<close>, \<^verbatim>\<open>h\<close>: both positions are visited and become \<^verbatim>\<open>h\<close> gates.\<close>

lemma specific_mutate_rx_h_first:
  "specific_mutate qc_rx_h [h_entry, rx_entry] 0 (advance (Suc 0) (tape (\<lambda>_. 0)))
     = Some (Inr (qc_h_h, advance 2 (tape (\<lambda>_. 0))))"
  by (simp add: specific_mutate_def loop_turn[where cur = "place (RXGate (Parameter 0)) [0]"]
      draw_def instantiate_def rebind_def overwrite_def getitem_def setitem_def position_def
      example_defs numeral_2_eq_2)

lemma specific_mutate_rx_h_second:
  "specific_mutate qc_h_h [h_entry, rx_entry] 1 (advance 3 (tape (\<lambda>_. 0)))
     = Some (Inr (qc_h_h, advance 4 (tape (\<lambda>_. 0))))"
  by (simp add: specific_mutate_def loop_turn[where cur = "place (HGate NoParams) [1]"]
      draw_def instantiate_def rebind_def overwrite_def getitem_def setitem_def position_def
      example_defs advance_def)

lemma visit_rx_h_run:
  "visit_each_position [h_entry, rx_entry] [0, 1] qc_rx_h (tape (\<lambda>_. 0))
     = Some (Inr (qc_h_h, advance 4 (tape (\<lambda>_. 0))))"
  by (simp add: specific_mutate_rx_h_first specific_mutate_rx_h_second)

theorem bitflip_mutate_prob_one_witness:
  "visit_each_position [h_entry, rx_entry] [0, 1] qc_rx_h (tape (\<lambda>_. 0))
     = Some (Inr (qc_h_h, advance 4 (tape (\<lambda>_. 0))))
   \<and> bitflip_mutate [h_entry, rx_entry] 1 qc_rx_h (tape (\<lambda>_. 0))
     = Some (Inr (qc_h_h, advance 4 (tape (\<lambda>_. 0)), [0, 1]))"
proof -
  have len: "length (data qc_rx_h) = 2" by (simp add: example_defs)
  have idxs: "map int [0..<2] = [0, 1]" by (simp add: upt_rec)
  from bitflip_mutate_prob_one[of "[h_entry, rx_entry]" qc_rx_h "tape (\<lambda>_. 0)"]
  have "bitflip_mutate [h_entry, rx_entry] 1 qc_rx_h (tape (\<lambda>_. 0))
      = Some (Inr (qc_h_h, advance 4 (tape (\<lambda>_. 0)), [0, 1]))"
    by (simp only: len idxs visit_rx_h_run option.case sum.case prod.case)
  with visit_rx_h_run show ?thesis by simp
qed

text \<open>
  Claim C5 as stated fails where a call does not come back. On \<^verbatim>\<open>cx(0, 1)\<close>, \<^verbatim>\<open>h(1)\<close>
  with a pool of one-qubit entries, the call at position 0 never returns, so the pass
  never returns and position 1 is never visited. With an empty pool the call at position
  0 raises, and the pass raises with it.
\<close>

theorem bitflip_mutate_prob_one_counterexample:
  "length (data qc_cx_h) = 2
   \<and> specific_mutate qc_cx_h [h_entry, rx_entry] 0 (advance 1 (tape (\<lambda>_. 0))) = None
   \<and> bitflip_mutate [h_entry, rx_entry] 1 qc_cx_h (tape (\<lambda>_. 0)) = None
   \<and> bitflip_mutate [] 1 qc_rx_h (tape (\<lambda>_. 0)) = Some (Inl IndexError)"
proof -
  have len: "length (data qc_cx_h) = 2" by (simp add: example_defs)
  have cur: "getitem (data qc_cx_h) 0 = Inr (place (CXGate NoParams) [0, 1])"
    by (simp add: getitem_def position_def example_defs)
  have no: "\<forall>d\<in>set [h_entry, rx_entry].
      num_qubits (instantiate d 0) \<noteq> num_qubits (operation (place (CXGate NoParams) [0, 1]))"
    by (simp add: instantiate_def example_defs)
  have spin: "specific_mutate qc_cx_h [h_entry, rx_entry] 0 r = None" for r
    using loop_never_returns[OF _ cur no, of r] by (simp add: specific_mutate_None_iff)
  have coin: "fst (random_random r) < 1" for r
    by (rule random_random_lt1)
  have idxs: "map int [0..<2] = [0, 1]" by (simp add: upt_rec)
  have stuck: "bitflip_mutate [h_entry, rx_entry] 1 qc_cx_h (tape (\<lambda>_. 0)) = None"
    by (simp add: bitflip_mutate_def len idxs coin spin)
  have len': "length (data qc_rx_h) = 2" by (simp add: example_defs)
  have raised: "bitflip_mutate [] 1 qc_rx_h (tape (\<lambda>_. 0)) = Some (Inl IndexError)"
    by (simp add: bitflip_mutate_def len' idxs coin specific_mutate_def loop_empty_pool)
  from len spin stuck raised show ?thesis by simp
qed

text \<open>
  Claim C6. For every circuit, the function made by \<^verbatim>\<open>bitflip_mutate\<close> with probability 0
  returns the input circuit itself, so with the same gate count, arities and target
  qubits, and calls \<^verbatim>\<open>specific_mutate\<close> at no position; it only reads one random value per
  position.
\<close>

theorem bitflip_mutate_prob_zero:
  "bitflip_mutate pool 0 qc r = Some (Inr (qc, advance (length (data qc)) r, []))"
  by (simp add: bitflip_mutate_def bitflip_loop_never)

theorem bitflip_mutate_prob_zero_witness:
  "bitflip_mutate [] 0 qc_h_cx_h tape_dip = Some (Inr (qc_h_cx_h, advance 3 tape_dip, []))"
  using bitflip_mutate_prob_zero[of "[]" qc_h_cx_h tape_dip] by (simp add: example_defs)

section \<open>The by-depth normalizer\<close>

text \<open>
  Claim C10. For every circuit whose depth is at most the target, the function made by
  \<^verbatim>\<open>normalizer.by_depth\<close> returns the input circuit unchanged, whatever the divider would
  do, even one that always raises; only when the depth exceeds the target is the result
  the first part the divider returns.
\<close>

theorem by_depth_within_target:
  "(int (depth qc) \<le> d \<longrightarrow> by_depth divider d qc = Inr qc)
   \<and> (d < int (depth qc) \<longrightarrow>
        by_depth divider d qc
          = (case divider d qc of Inl e \<Rightarrow> Inl e | Inr p \<Rightarrow> Inr (fst p)))"
  by (auto simp: by_depth_def split: sum.splits)

lemma depth_qc_h_cx_h: "depth qc_h_cx_h = 3"
  by (simp add: depth_def depth_of_def bits_def example_defs)

lemma depth_qc_h_rx_rx_h: "depth qc_h_rx_rx_h = 2"
  by (simp add: depth_def depth_of_def bits_def example_defs)

theorem by_depth_within_target_witness:
  "int (depth qc_h_cx_h) \<le> 3
   \<and> by_depth (\<lambda>d c. Inl CircuitError) 3 qc_h_cx_h = Inr qc_h_cx_h
   \<and> 1 < int (depth qc_h_cx_h)
   \<and> by_depth (\<lambda>d c. divide_by_depth_spec c d) 1 qc_h_cx_h
       = Inr \<lparr>qc_num_qubits = 2, data = [place (HGate NoParams) [0]]\<rparr>"
proof -
  have cut: "divide_by_depth_spec qc_h_cx_h 1 =
      Inr (\<lparr>qc_num_qubits = 2, data = [place (HGate NoParams) [0]]\<rparr>,
           \<lparr>qc_num_qubits = 2,
             data = [place (CXGate NoParams) [0, 1], place (HGate NoParams) [1]]\<rparr>)"
    by (simp add: divide_by_depth_spec_def depth_of_def bits_def example_defs)
  from by_depth_within_target[of qc_h_cx_h 3 "\<lambda>d c. Inl CircuitError"]
    by_depth_within_target[of qc_h_cx_h 1 "\<lambda>d c. divide_by_depth_spec c d"]
  show ?thesis by (simp add: depth_qc_h_cx_h cut)
qed

section \<open>The Layerflip Mutator\<close>

lemma layerflip_loop_never:
  "layerflip_loop U G 0 sd idxs qc r = Inr (qc, advance (length idxs) r)"
proof (induction idxs arbitrary: r)
  case Nil
  then show ?case by simp
next
  case (Cons i idxs)
  have "\<not> fst (random_random r) < 0" using random_random_ge0[of r] by simp
  then show ?case by (simp add: Cons.IH)
qed

text \<open>
  Claim C7. For every circuit, \<^verbatim>\<open>layerflip_mutate\<close> with probability 0 returns the input
  circuit itself. This holds for every choice of the divider, the composer, the truncation
  and the generator, also ones that always raise: none of them is called. Only one random
  value per depth offset is read.
\<close>

theorem layerflip_mutate_prob_zero:
  "layerflip_mutate U G qc 0 r = Inr (qc, advance (depth qc) r)"
  by (simp add: layerflip_mutate_def layerflip_loop_never)

theorem layerflip_mutate_prob_zero_witness:
  "layerflip_mutate
     \<lparr>divide_circuit_by_depth = \<lambda>c d. Inl CircuitError,
      compose_circuit = \<lambda>cs. Inl CircuitError,
      truncate_circuit = \<lambda>c d. Inl CircuitError\<rparr>
     (\<lambda>n d r. Inl CircuitError) qc_h_cx_h 0 tape_second
   = Inr (qc_h_cx_h, advance 3 tape_second)"
  using layerflip_mutate_prob_zero[of _ _ qc_h_cx_h tape_second]
  by (simp add: depth_qc_h_cx_h)

subsection \<open>The helpers as the spec describes them\<close>

lemma depth_of_Nil [simp]: "depth_of [] = 0"
  by (simp add: depth_of_def)

lemma crop_depth: "depth_of front \<le> d \<Longrightarrow> depth_of (fst (crop d front xs)) \<le> d"
  by (induction xs arbitrary: front) auto

lemma crop_append: "fst (crop d front xs) @ snd (crop d front xs) = front @ xs"
  by (induction xs arbitrary: front) auto

text \<open>Composing the two parts of a division gives the circuit back.\<close>

lemma divide_compose_round_trip:
  "divide_by_depth_spec qc d = Inr (qc1, qc2) \<Longrightarrow> compose_spec [qc1, qc2] = Inr qc"
  using crop_append[of "nat d" "[]" "data qc"]
  by (auto simp: divide_by_depth_spec_def compose_spec_def split: if_splits)

lemma truncate_spec_depth:
  assumes "truncate_spec qc d = Inr qc'"
  shows "int (depth qc') \<le> max d 0"
  using assms crop_depth[of "[]" "nat d" "data qc"]
  by (auto simp: truncate_spec_def by_depth_def divide_by_depth_spec_def depth_def
           split: if_splits)

lemma layerflip_loop_depth:
  assumes "truncate_circuit U = truncate_spec"
    and "layerflip_loop U G p (int sd) idxs qc r = Inr (qc', r')"
    and "depth qc \<le> sd"
  shows "depth qc' \<le> sd"
  using assms(2,3)
proof (induction idxs arbitrary: qc r)
  case Nil
  then show ?case by simp
next
  case (Cons i idxs)
  show ?case
  proof (cases "fst (random_random r) < p")
    case True
    with Cons.prems obtain qc1 r1 where
      step: "layerflip_step U G (int sd) i qc (advance 1 r) = Inr (qc1, r1)"
      and rest: "layerflip_loop U G p (int sd) idxs qc1 r1 = Inr (qc', r')"
      by (auto split: sum.splits)
    from step assms(1) obtain c where "truncate_spec c (int sd) = Inr qc1"
      by (auto simp: layerflip_step_def split: sum.splits)
    from truncate_spec_depth[OF this] have "depth qc1 \<le> sd" by simp
    from Cons.IH[OF rest this] show ?thesis .
  next
    case False
    with Cons.prems have "layerflip_loop U G p (int sd) idxs qc (advance 1 r) = Inr (qc', r')"
      by simp
    from Cons.IH[OF this Cons.prems(2)] show ?thesis .
  qed
qed

text \<open>
  Claim C4, as amended. For every circuit and every probability, with the truncation the
  spec describes and any divider, composer and generator: when \<^verbatim>\<open>layerflip_mutate\<close>
  returns, the depth of the result is at most the depth of the input, however many
  offsets were accepted. Each accepted replacement is truncated to the depth read once
  before the loop; nothing brings a shallower result back up to it.
\<close>

theorem layerflip_mutate_depth_bound:
  assumes "truncate_circuit U = truncate_spec"
    and "layerflip_mutate U G qc p r = Inr (qc', r')"
  shows "depth qc' \<le> depth qc"
proof -
  from assms(2)
  have "layerflip_loop U G p (int (depth qc)) (map int [0..<depth qc]) qc r = Inr (qc', r')"
    by (simp add: layerflip_mutate_def Let_def)
  from layerflip_loop_depth[OF assms(1) this] show ?thesis by simp
qed

text \<open>
  A run on \<^verbatim>\<open>h(0)\<close>, \<^verbatim>\<open>cx(0, 1)\<close>, \<^verbatim>\<open>h(1)\<close>, of depth 3, with probability one half and a
  randomness source that accepts offset 1 only. The \<^verbatim>\<open>cx\<close> layer is replaced by a layer
  of \<^verbatim>\<open>rx\<close> gates, which no longer links the two qubits: the result has depth 2.
\<close>

lemma layerflip_step_example:
  "layerflip_step utilities_spec rx_layer 3 1 qc_h_cx_h r = Inr (qc_h_rx_rx_h, r)"
  by (simp add: layerflip_step_def utilities_spec_def divide_by_depth_spec_def compose_spec_def
      truncate_spec_def by_depth_def depth_def depth_of_def bits_def rx_layer_def upt_rec
      example_defs)

lemma coin_tape_second:
  "fst (random_random (advance k tape_second)) = (if k = 1 then 0 else 1 / 2)"
  by (simp add: random_random_def tape_second_def tape_def advance_def)

lemma layerflip_example_run:
  "layerflip_mutate utilities_spec rx_layer qc_h_cx_h (1 / 2) tape_second
     = Inr (qc_h_rx_rx_h, advance 3 tape_second)"
proof -
  have idxs: "map int [0..<3] = [0, 1, 2]" by (simp add: upt_rec)
  have coin0: "fst (random_random tape_second) = 1 / 2"
    using coin_tape_second[of 0] by simp
  show ?thesis
    by (simp add: layerflip_mutate_def depth_qc_h_cx_h idxs coin0 coin_tape_second
        layerflip_step_example numeral_3_eq_3)
qed

theorem layerflip_mutate_depth_bound_witness:
  "truncate_circuit utilities_spec = truncate_spec
   \<and> layerflip_mutate utilities_spec rx_layer qc_h_cx_h (1 / 2) tape_second
       = Inr (qc_h_rx_rx_h, advance 3 tape_second)
   \<and> depth qc_h_rx_rx_h \<le> depth qc_h_cx_h"
proof -
  have tr: "truncate_circuit utilities_spec = truncate_spec"
    by (simp add: utilities_spec_def)
  from layerflip_mutate_depth_bound[OF tr layerflip_example_run] tr layerflip_example_run
  show ?thesis by simp
qed

lemma rx_layer_two: "rx_layer 2 1 r = Inr (qc_rx_rx, r)"
  by (simp add: rx_layer_def upt_rec example_defs)

lemma depth_qc_rx_rx: "depth qc_rx_rx = 1"
  by (simp add: depth_def depth_of_def bits_def example_defs)

text \<open>
  Claim C4 as stated fails on that run: the input has depth 3, the generated layer has
  depth 1, and the result has depth 2.
\<close>

theorem layerflip_depth_counterexample:
  "layerflip_mutate utilities_spec rx_layer qc_h_cx_h (1 / 2) tape_second
     = Inr (qc_h_rx_rx_h, advance 3 tape_second)
   \<and> rx_layer (qc_num_qubits qc_h_cx_h) 1 tape_second = Inr (qc_rx_rx, tape_second)
   \<and> depth qc_rx_rx = 1
   \<and> depth qc_h_cx_h = 3
   \<and> depth qc_h_rx_rx_h = 2
   \<and> depth qc_h_rx_rx_h \<noteq> depth qc_h_cx_h"
proof -
  have "qc_num_qubits qc_h_cx_h = 2" by (simp add: example_defs)
  then show ?thesis
    by (simp add: layerflip_example_run rx_layer_two depth_qc_rx_rx depth_qc_h_cx_h
        depth_qc_h_rx_rx_h)
qed


end
